theory Spec2Isabelle
  imports Main "HOL-Library.Sublist"
begin

section \<open>JavaScript strings\<close>

text \<open>
  Strings are lists of characters. Only the ASCII behaviour of the JavaScript
  string primitives is modelled: \<open>toLowerCase\<close> folds \<open>A\<close>..\<open>Z\<close>, and the
  regular-expression class \<open>\s\<close> is space, tab, line feed, vertical tab, form
  feed and carriage return.
\<close>

definition upper_letters :: string where
  "upper_letters = ''ABCDEFGHIJKLMNOPQRSTUVWXYZ''"

definition lower_letters :: string where
  "lower_letters = ''abcdefghijklmnopqrstuvwxyz''"

definition toLowerChar :: "char \<Rightarrow> char" where
  "toLowerChar c = (case map_of (zip upper_letters lower_letters) c of Some l \<Rightarrow> l | None \<Rightarrow> c)"

definition toLowerCase :: "string \<Rightarrow> string" where
  "toLowerCase s = map toLowerChar s"

definition is_space :: "char \<Rightarrow> bool" where
  "is_space c = (c \<in> set [CHR '' '', CHR 0x09, CHR 0x0A, CHR 0x0B, CHR 0x0C, CHR 0x0D])"

definition is_digit :: "char \<Rightarrow> bool" where
  "is_digit c = (c \<in> set ''0123456789'')"

definition is_quote :: "char \<Rightarrow> bool" where
  "is_quote c = (c = CHR 0x22 \<or> c = CHR 0x27)"

definition trim :: "string \<Rightarrow> string" where
  "trim s = rev (dropWhile is_space (rev (dropWhile is_space s)))"


section \<open>Filename normalisation (runBrowserMode)\<close>

text \<open>\<open>.replace(/^["']|["']$/g, "")\<close>: one leading quote character is removed,
  then one trailing quote character of what is left.\<close>

definition strip_wrapping_quotes :: "string \<Rightarrow> string" where
  "strip_wrapping_quotes s =
     (let s1 = (case s of c # cs \<Rightarrow> if is_quote c then cs else s | [] \<Rightarrow> s)
      in if s1 \<noteq> [] \<and> is_quote (last s1) then butlast s1 else s1)"

text \<open>\<open>.replace(/\s+/g, " ")\<close>: every maximal run of whitespace becomes one space.\<close>

fun collapse_run :: "bool \<Rightarrow> string \<Rightarrow> string" where
  "collapse_run in_run [] = []"
| "collapse_run in_run (c # cs) =
     (if is_space c then (if in_run then collapse_run True cs else CHR '' '' # collapse_run True cs)
      else c # collapse_run False cs)"

definition collapse_whitespace :: "string \<Rightarrow> string" where
  "collapse_whitespace s = collapse_run False s"

text \<open>\<open>.replace(/\s*\(\d+\)$/, "")\<close>: when the string ends in \<open>(\<close>, one or more
  digits and \<open>)\<close>, that group is removed together with the whitespace directly
  before it; the pattern is anchored at the end of the string, so anything after the
  closing parenthesis prevents the match.\<close>

definition strip_duplicate_suffix :: "string \<Rightarrow> string" where
  "strip_duplicate_suffix s =
     (case rev s of
        c # r \<Rightarrow>
          (if c = CHR '')'' then
             (let ds = takeWhile is_digit r; r2 = dropWhile is_digit r
              in case r2 of
                   p # r3 \<Rightarrow> if p = CHR ''('' \<and> ds \<noteq> [] then rev (dropWhile is_space r3) else s
                 | [] \<Rightarrow> s)
           else s)
      | [] \<Rightarrow> s)"

definition normalizeFilename :: "string \<Rightarrow> string" where
  "normalizeFilename filename =
     trim (strip_duplicate_suffix (collapse_whitespace (strip_wrapping_quotes (trim (toLowerCase filename)))))"


section \<open>Time and the remote page\<close>

text \<open>
  Modelled from the spec: \<open>delay\<close> (\<open>src/browser/utils.ts\<close> is not among the
  sources). The spec's "sleep interval" suspends the caller for the given number of
  milliseconds; the Node timer behind it clamps a delay below 1 ms to 1 ms. The clock
  \<open>Date.now()\<close> is a natural number of milliseconds threaded through every function.
\<close>

definition delay :: "nat \<Rightarrow> nat \<Rightarrow> nat" where
  "delay ms t = t + max 1 ms"

text \<open>
  The outcome of one \<open>Runtime.evaluate\<close> (or other DevTools) call: it rejects with an
  error message, resolves without a value (\<open>result?.value\<close> is \<open>undefined\<close>), or
  resolves with a value. Every call also takes some time, given by the environment.
\<close>

datatype 'a reply = Throws string | NoValue | Value 'a

section \<open>Visible attachments (attachments.ts)\<close>

record VisibleAttachment =
  filename :: string
  selector :: string
  outerHTML :: "string option"


text \<open>\<open>JSON.stringify(attachments.map((att) => `${att.filename}::${att.selector}`))\<close>.
  \<open>JSON.stringify\<close> is injective on arrays of strings, so the key is kept as the
  array itself.\<close>

definition snapshotKey :: "VisibleAttachment list \<Rightarrow> string list" where
  "snapshotKey attachments = map (\<lambda>att. filename att @ ''::'' @ selector att) attachments"

record verify_state =
  now :: nat
  polls :: nat
  lastSnapshotKey :: "string list option"
  stableIterations :: nat

datatype ('r, 's) iteration = Return 'r | Continue 's

text \<open>The body of the \<open>while\<close> loop up to the \<open>delay\<close>: one sample, taken by the
  \<open>polls s\<close>-th call of the sampling expression. A rejected call is caught and logged;
  an absent or empty result leaves the snapshot key and the counter untouched.\<close>

definition verify_poll ::
  "(nat \<Rightarrow> nat \<times> VisibleAttachment list reply) \<Rightarrow> verify_state
     \<Rightarrow> (VisibleAttachment list \<times> verify_state, verify_state) iteration" where
  "verify_poll sample s =
     (let (latency, r) = sample (polls s);
          s1 = s\<lparr>now := now s + latency, polls := Suc (polls s)\<rparr>
      in case r of
           Throws msg \<Rightarrow> Continue s1
         | NoValue \<Rightarrow> Continue s1
         | Value attachments \<Rightarrow>
             if attachments \<noteq> [] then
               (let key = snapshotKey attachments;
                    s2 = (if Some key = lastSnapshotKey s1
                          then s1\<lparr>stableIterations := stableIterations s1 + 1\<rparr>
                          else s1\<lparr>lastSnapshotKey := Some key, stableIterations := 0\<rparr>)
                in if stableIterations s2 \<ge> 2 then Return (attachments, s2) else Continue s2)
             else Continue s1)"

lemma verify_poll_now:
  "verify_poll sample s = Continue s' \<Longrightarrow> now s \<le> now s'"
  by (auto simp: verify_poll_def Let_def split: prod.splits reply.splits if_splits)

function verify_loop ::
  "(nat \<Rightarrow> nat \<times> VisibleAttachment list reply) \<Rightarrow> nat \<Rightarrow> nat \<Rightarrow> verify_state
     \<Rightarrow> VisibleAttachment list \<times> verify_state" where
  "verify_loop sample pollInterval deadline s =
     (if now s < deadline then
        (case verify_poll sample s of
           Return r \<Rightarrow> r
         | Continue s' \<Rightarrow>
             verify_loop sample pollInterval deadline (s'\<lparr>now := delay pollInterval (now s')\<rparr>))
      else ([], s))"
  by pat_completeness auto
termination
proof (relation "measure (\<lambda>(sample, pollInterval, deadline, s). deadline - now s)")
  show "wf (measure (\<lambda>(sample, pollInterval, deadline, s). deadline - now s))"
    by simp
next
  fix sample :: "nat \<Rightarrow> nat \<times> VisibleAttachment list reply"
  fix pollInterval deadline :: nat and s s' :: verify_state
  assume "now s < deadline" and "verify_poll sample s = Continue s'"
  then have "now s < delay pollInterval (now s')"
    using verify_poll_now [of sample s s'] by (simp add: delay_def)
  with \<open>now s < deadline\<close>
  show "((sample, pollInterval, deadline, s'\<lparr>now := delay pollInterval (now s')\<rparr>),
          (sample, pollInterval, deadline, s))
        \<in> measure (\<lambda>(sample, pollInterval, deadline, s). deadline - now s)"
    by simp
qed

declare verify_loop.simps [simp del]

text \<open>\<open>options.timeout ?? 5000\<close> and \<open>options.pollInterval ?? 200\<close>; the call starts
  at time \<open>t0\<close>.\<close>

definition verifyAttachmentsVisible ::
  "(nat \<Rightarrow> nat \<times> VisibleAttachment list reply) \<Rightarrow> nat option \<Rightarrow> nat option \<Rightarrow> nat
     \<Rightarrow> VisibleAttachment list \<times> verify_state" where
  "verifyAttachmentsVisible sample timeout pollInterval t0 =
     verify_loop sample
       (case pollInterval of Some p \<Rightarrow> p | None \<Rightarrow> 200)
       (t0 + (case timeout of Some t \<Rightarrow> t | None \<Rightarrow> 5000))
       \<lparr>now = t0, polls = 0, lastSnapshotKey = None, stableIterations = 0\<rparr>"


text \<open>The polls made so far that produced a non-empty sample, as their snapshot keys,
  oldest first: the history the loop's two variables summarise.\<close>

definition observed_key :: "nat \<times> VisibleAttachment list reply \<Rightarrow> string list option" where
  "observed_key p =
     (case snd p of Value attachments \<Rightarrow> if attachments \<noteq> [] then Some (snapshotKey attachments) else None
      | _ \<Rightarrow> None)"


section \<open>Visual verification in the run orchestrator (runBrowserMode)\<close>

record BrowserAttachment =
  path :: string
  displayPath :: string

text \<open>\<open>path.basename\<close> of the Node library on POSIX paths: trailing slashes are
  ignored and the part after the last remaining slash is returned.\<close>

definition basename :: "string \<Rightarrow> string" where
  "basename p = rev (takeWhile (\<lambda>c. c \<noteq> CHR ''/'') (dropWhile (\<lambda>c. c = CHR ''/'') (rev p)))"

record verification =
  expectedFilenames :: "string list"
  visibleFilenames :: "string list"
  missingFiles :: "string list"
  extraFiles :: "string list"

definition compareAttachments ::
  "BrowserAttachment list \<Rightarrow> VisibleAttachment list \<Rightarrow> verification" where
  "compareAttachments attachments visibleAttachments =
     (let expected = map (\<lambda>att. normalizeFilename (basename (path att))) attachments;
          visible = map (\<lambda>att. normalizeFilename (filename att)) visibleAttachments
      in \<lparr>expectedFilenames = expected,
          visibleFilenames = visible,
          missingFiles = filter (\<lambda>e. e \<notin> set visible) expected,
          extraFiles = filter (\<lambda>v. v \<notin> set expected) visible\<rparr>)"

text \<open>What the logger receives, and the error thrown: its message carries the two
  counts, the missing names and the visible names.\<close>

datatype verify_log =
    Failed_banner
  | Expected_line nat "string list"
  | Visible_line nat "string list"
  | Missing_line "string list"
  | Extra_line "string list"
  | Dom_samples "VisibleAttachment list"
  | Verified_line nat nat

datatype verification_error =
  AttachmentVerificationFailed nat nat "string list" "string list"

definition checkAttachmentsVisible ::
  "BrowserAttachment list \<Rightarrow> VisibleAttachment list
     \<Rightarrow> (verification_error + unit) \<times> verify_log list" where
  "checkAttachmentsVisible attachments visibleAttachments =
     (let v = compareAttachments attachments visibleAttachments;
          ne = length (expectedFilenames v);
          nv = length (visibleFilenames v)
      in if missingFiles v \<noteq> [] \<or> (extraFiles v \<noteq> [] \<and> nv \<noteq> ne) then
           (Inl (AttachmentVerificationFailed ne nv (missingFiles v) (visibleFilenames v)),
            [Failed_banner, Expected_line ne (expectedFilenames v), Visible_line nv (visibleFilenames v)]
            @ (if missingFiles v \<noteq> [] then [Missing_line (missingFiles v)] else [])
            @ (if extraFiles v \<noteq> [] then [Extra_line (extraFiles v)] else [])
            @ (if visibleAttachments \<noteq> [] then [Dom_samples (take 2 visibleAttachments)] else []))
         else (Inr (), [Verified_line nv ne]))"

text \<open>The stage as the orchestrator runs it: sample with a 10 s timeout and the
  default poll interval, then compare.\<close>

definition attachmentVerification ::
  "(nat \<Rightarrow> nat \<times> VisibleAttachment list reply) \<Rightarrow> nat \<Rightarrow> BrowserAttachment list
     \<Rightarrow> (verification_error + unit) \<times> verify_log list" where
  "attachmentVerification sample t0 attachments =
     checkAttachmentsVisible attachments
       (fst (verifyAttachmentsVisible sample (Some 10000) None t0))"

text \<open>Concrete data of the scenarios: attachments shown as pills, files given by path.\<close>

definition pill :: "string \<Rightarrow> VisibleAttachment" where
  "pill name = \<lparr>filename = name, selector = ''[data-testid*=\"attachment-pill\"]'', outerHTML = None\<rparr>"

definition file_at :: "string \<Rightarrow> BrowserAttachment" where
  "file_at p = \<lparr>path = p, displayPath = p\<rparr>"


definition steady_sampler :: "VisibleAttachment list \<Rightarrow> nat \<Rightarrow> nat \<times> VisibleAttachment list reply" where
  "steady_sampler visible k = (0, Value visible)"

text \<open>A sampler that shows \<open>first\<close> on its first poll, \<open>second\<close> on the next
  \<open>n\<close> polls and behaves as \<open>rest\<close> afterwards; every call returns at once.\<close>

definition staged_sampler ::
  "VisibleAttachment list \<Rightarrow> nat \<Rightarrow> VisibleAttachment list
     \<Rightarrow> (nat \<Rightarrow> nat \<times> VisibleAttachment list reply) \<Rightarrow> nat \<Rightarrow> nat \<times> VisibleAttachment list reply" where
  "staged_sampler first n second rest k =
     (if k = 0 then (0, Value first) else if k \<le> n then (0, Value second) else rest k)"


section \<open>Properties of filename normalisation\<close>

lemma toLowerChar_idem: "toLowerChar (toLowerChar c) = toLowerChar c"
  by (simp add: toLowerChar_def upper_letters_def lower_letters_def)

lemma toLowerCase_idem: "toLowerCase (toLowerCase s) = toLowerCase s"
  by (simp add: toLowerCase_def toLowerChar_idem)

lemma trim_spaces:
  assumes "\<forall>c\<in>set l. is_space c" "\<forall>c\<in>set r. is_space c"
  shows "trim (l @ s @ r) = trim s"
proof -
  have a: "\<And>x. dropWhile is_space (l @ x) = dropWhile is_space x"
    using assms(1) by (simp add: dropWhile_append)
  have b: "\<And>x. dropWhile is_space (rev r @ x) = dropWhile is_space x"
    using assms(2) by (simp add: dropWhile_append)
  show ?thesis
  proof (cases "\<forall>c\<in>set s. is_space c")
    case True
    then have c: "dropWhile is_space (s @ r) = []" using assms(2) by simp
    have d: "dropWhile is_space s = []" using True by simp
    show ?thesis by (simp only: trim_def a c d)
  next
    case False
    then have c: "dropWhile is_space (s @ r) = dropWhile is_space s @ r"
      by (auto simp: dropWhile_append)
    show ?thesis by (simp only: trim_def a c rev_append b)
  qed
qed

lemma normalizeFilename_case: "normalizeFilename (toLowerCase s) = normalizeFilename s"
  by (simp add: normalizeFilename_def toLowerCase_idem)

lemma normalizeFilename_padding:
  "normalizeFilename (replicate m (CHR '' '') @ s @ replicate n (CHR '' '')) = normalizeFilename s"
proof -
  have "toLowerCase (replicate m (CHR '' '') @ s @ replicate n (CHR '' ''))
        = replicate m (CHR '' '') @ toLowerCase s @ replicate n (CHR '' '')"
    by (simp add: toLowerCase_def toLowerChar_def upper_letters_def lower_letters_def)
  moreover
  have "trim (replicate m (CHR '' '') @ toLowerCase s @ replicate n (CHR '' '')) = trim (toLowerCase s)"
    by (rule trim_spaces) (auto simp: is_space_def)
  ultimately show ?thesis by (simp add: normalizeFilename_def)
qed

text \<open>
  C9, as the spec states it: \<open>"My File (1).TXT"\<close>, \<open>"my file.txt"\<close> and
  \<open>"  my file.txt  "\<close> all normalise to the same key. The code does not do this: the
  duplicate-count pattern is anchored at the end of the name, and in
  \<open>"my file (1).txt"\<close> the group \<open>(1)\<close> is followed by the extension, so it stays.
\<close>

theorem normalizeFilename_infix_count_kept:
  "normalizeFilename ''My File (1).TXT'' \<noteq> normalizeFilename ''my file.txt''"
  by code_simp

text \<open>
  C9, amended: \<open>normalizeFilename\<close> case-folds, trims, strips wrapping quotes, collapses
  internal whitespace and strips a duplicate-count group \<open>(n)\<close> only where it ends the
  name. So \<open>"My File.TXT (1)"\<close>, \<open>"my file.txt"\<close>, \<open>"  my file.txt  "\<close> and the
  quoted \<open>"My   File.txt"\<close> all map to the key \<open>my file.txt\<close>, while
  \<open>"My File (1).TXT"\<close> maps to \<open>my file (1).txt\<close>. In general the key does not depend
  on the case of the name nor on blanks around it.
\<close>

theorem normalizeFilename_keys:
  "normalizeFilename ''My File.TXT (1)'' = ''my file.txt''
   \<and> normalizeFilename ''my file.txt'' = ''my file.txt''
   \<and> normalizeFilename ''  my file.txt  '' = ''my file.txt''
   \<and> normalizeFilename ''\"My   File.txt\"'' = ''my file.txt''
   \<and> normalizeFilename ''My File (1).TXT'' = ''my file (1).txt''
   \<and> normalizeFilename (toLowerCase s) = normalizeFilename s
   \<and> normalizeFilename (replicate m (CHR '' '') @ s @ replicate n (CHR '' '')) = normalizeFilename s"
proof -
  have "normalizeFilename ''My File.TXT (1)'' = ''my file.txt''"
    by code_simp
  moreover have "normalizeFilename ''my file.txt'' = ''my file.txt''"
    by code_simp
  moreover have "normalizeFilename ''  my file.txt  '' = ''my file.txt''"
    by code_simp
  moreover have "normalizeFilename ''\"My   File.txt\"'' = ''my file.txt''"
    by code_simp
  moreover have "normalizeFilename ''My File (1).TXT'' = ''my file (1).txt''"
    by code_simp
  ultimately show ?thesis
    using normalizeFilename_case normalizeFilename_padding by simp
qed


section \<open>Properties of the visual verification\<close>

lemma check_fails_iff:
  "isl (fst (checkAttachmentsVisible attachments vis)) \<longleftrightarrow>
     (missingFiles (compareAttachments attachments vis) \<noteq> []
      \<or> (extraFiles (compareAttachments attachments vis) \<noteq> []
          \<and> length (visibleFilenames (compareAttachments attachments vis))
             \<noteq> length (expectedFilenames (compareAttachments attachments vis))))"
  by (simp add: checkAttachmentsVisible_def Let_def)

lemma missing_iff:
  "missingFiles (compareAttachments attachments vis) \<noteq> [] \<longleftrightarrow>
     \<not> set (expectedFilenames (compareAttachments attachments vis))
         \<subseteq> set (visibleFilenames (compareAttachments attachments vis))"
  by (auto simp: compareAttachments_def Let_def filter_empty_conv)

lemma extra_iff:
  "extraFiles (compareAttachments attachments vis) \<noteq> [] \<longleftrightarrow>
     \<not> set (visibleFilenames (compareAttachments attachments vis))
         \<subseteq> set (expectedFilenames (compareAttachments attachments vis))"
  by (auto simp: compareAttachments_def Let_def filter_empty_conv)

lemma check_fails_sets:
  assumes "distinct (expectedFilenames (compareAttachments attachments vis))"
  shows "isl (fst (checkAttachmentsVisible attachments vis)) \<longleftrightarrow>
     set (expectedFilenames (compareAttachments attachments vis))
       \<noteq> set (visibleFilenames (compareAttachments attachments vis))"
proof -
  let ?E = "expectedFilenames (compareAttachments attachments vis)"
  let ?V = "visibleFilenames (compareAttachments attachments vis)"
  have "length ?V \<noteq> length ?E" if sub: "set ?E \<subseteq> set ?V" and nsub: "\<not> set ?V \<subseteq> set ?E"
  proof -
    from sub nsub have "set ?E \<subset> set ?V" by auto
    then have "card (set ?E) < card (set ?V)" by (simp add: psubset_card_mono)
    also have "\<dots> \<le> length ?V" by (rule card_length)
    finally show ?thesis using assms by (simp add: distinct_card)
  qed
  then show ?thesis
    unfolding check_fails_iff missing_iff extra_iff by auto
qed

lemma check_failure_report:
  assumes "isl (fst (checkAttachmentsVisible attachments vis))"
  shows "fst (checkAttachmentsVisible attachments vis) =
           Inl (AttachmentVerificationFailed
                  (length (expectedFilenames (compareAttachments attachments vis)))
                  (length (visibleFilenames (compareAttachments attachments vis)))
                  (missingFiles (compareAttachments attachments vis))
                  (visibleFilenames (compareAttachments attachments vis)))"
    and "missingFiles (compareAttachments attachments vis) \<noteq> [] \<Longrightarrow>
           Missing_line (missingFiles (compareAttachments attachments vis))
             \<in> set (snd (checkAttachmentsVisible attachments vis))"
    and "extraFiles (compareAttachments attachments vis) \<noteq> [] \<Longrightarrow>
           Extra_line (extraFiles (compareAttachments attachments vis))
             \<in> set (snd (checkAttachmentsVisible attachments vis))"
  using assms by (auto simp: checkAttachmentsVisible_def Let_def split: if_splits)







lemma steady_sampler_result:
  "visible \<noteq> [] \<Longrightarrow>
     fst (verifyAttachmentsVisible (steady_sampler visible) (Some 10000) None t0) = visible"
  by (simp add: verifyAttachmentsVisible_def verify_loop.simps verify_poll_def delay_def Let_def
        steady_sampler_def)

lemma scenario_C_check:
  "checkAttachmentsVisible [file_at ''a.pdf'', file_at ''b.png''] [pill ''a.pdf'', pill ''c.pdf'']
     = (Inl (AttachmentVerificationFailed 2 2 [''b.png''] [''a.pdf'', ''c.pdf'']),
        [Failed_banner, Expected_line 2 [''a.pdf'', ''b.png''],
         Visible_line 2 [''a.pdf'', ''c.pdf''], Missing_line [''b.png''],
         Extra_line [''c.pdf''], Dom_samples [pill ''a.pdf'', pill ''c.pdf'']])"
  by code_simp

text \<open>
  C6, as the spec states it: the stage fails if and only if the normalised expected
  and visible filename sets differ. On the code it does not: two attachments with the
  same base name (\<open>/tmp/x/a.pdf\<close> and \<open>/tmp/y/a.pdf\<close>) against the steadily visible
  \<open>a.pdf\<close> and \<open>c.pdf\<close> give the sets \<open>{a.pdf}\<close> and \<open>{a.pdf, c.pdf}\<close>, yet nothing
  is missing and the counts agree, so the unexpected \<open>c.pdf\<close> is let through and the
  stage reports 2/2.
\<close>

theorem same_count_extra_passes:
  "set (expectedFilenames (compareAttachments
          [file_at ''/tmp/x/a.pdf'', file_at ''/tmp/y/a.pdf''] [pill ''a.pdf'', pill ''c.pdf'']))
     \<noteq> set (visibleFilenames (compareAttachments
          [file_at ''/tmp/x/a.pdf'', file_at ''/tmp/y/a.pdf''] [pill ''a.pdf'', pill ''c.pdf'']))
   \<and> attachmentVerification (steady_sampler [pill ''a.pdf'', pill ''c.pdf'']) 0
         [file_at ''/tmp/x/a.pdf'', file_at ''/tmp/y/a.pdf'']
       = (Inr (), [Verified_line 2 2])"
proof -
  have "checkAttachmentsVisible [file_at ''/tmp/x/a.pdf'', file_at ''/tmp/y/a.pdf'']
          [pill ''a.pdf'', pill ''c.pdf''] = (Inr (), [Verified_line 2 2])"
    by code_simp
  moreover
  have "set (expectedFilenames (compareAttachments
          [file_at ''/tmp/x/a.pdf'', file_at ''/tmp/y/a.pdf''] [pill ''a.pdf'', pill ''c.pdf'']))
     \<noteq> set (visibleFilenames (compareAttachments
          [file_at ''/tmp/x/a.pdf'', file_at ''/tmp/y/a.pdf''] [pill ''a.pdf'', pill ''c.pdf'']))"
    by code_simp
  ultimately show ?thesis
    by (simp add: attachmentVerification_def steady_sampler_result)
qed

text \<open>
  C6, amended: after visual sampling the stage fails exactly when an expected
  normalised filename is missing from the visible ones, or when there is an unexpected
  visible name and the two counts differ. When the expected normalised names are
  pairwise distinct this is the same as the two sets being different. A failure throws
  an error carrying the counts, the missing names and the visible names, and the log
  enumerates the missing names and the unexpected names (each when there are any). With
  expected \<open>a.pdf\<close>, \<open>b.png\<close> and steadily visible \<open>a.pdf\<close>, \<open>c.pdf\<close> the stage fails
  with missing \<open>b.png\<close> and extra \<open>c.pdf\<close>.
\<close>

theorem attachment_verification_fails_iff:
  "(isl (fst (checkAttachmentsVisible attachments vis)) \<longleftrightarrow>
      (missingFiles (compareAttachments attachments vis) \<noteq> []
       \<or> (extraFiles (compareAttachments attachments vis) \<noteq> []
           \<and> length (visibleFilenames (compareAttachments attachments vis))
              \<noteq> length (expectedFilenames (compareAttachments attachments vis)))))
   \<and> (distinct (expectedFilenames (compareAttachments attachments vis)) \<longrightarrow>
        (isl (fst (checkAttachmentsVisible attachments vis)) \<longleftrightarrow>
           set (expectedFilenames (compareAttachments attachments vis))
             \<noteq> set (visibleFilenames (compareAttachments attachments vis))))
   \<and> (isl (fst (checkAttachmentsVisible attachments vis)) \<longrightarrow>
        fst (checkAttachmentsVisible attachments vis) =
          Inl (AttachmentVerificationFailed
                 (length (expectedFilenames (compareAttachments attachments vis)))
                 (length (visibleFilenames (compareAttachments attachments vis)))
                 (missingFiles (compareAttachments attachments vis))
                 (visibleFilenames (compareAttachments attachments vis)))
        \<and> (missingFiles (compareAttachments attachments vis) \<noteq> [] \<longrightarrow>
             Missing_line (missingFiles (compareAttachments attachments vis))
               \<in> set (snd (checkAttachmentsVisible attachments vis)))
        \<and> (extraFiles (compareAttachments attachments vis) \<noteq> [] \<longrightarrow>
             Extra_line (extraFiles (compareAttachments attachments vis))
               \<in> set (snd (checkAttachmentsVisible attachments vis))))
   \<and> attachmentVerification (steady_sampler [pill ''a.pdf'', pill ''c.pdf'']) t0
         [file_at ''a.pdf'', file_at ''b.png'']
       = (Inl (AttachmentVerificationFailed 2 2 [''b.png''] [''a.pdf'', ''c.pdf'']),
          [Failed_banner, Expected_line 2 [''a.pdf'', ''b.png''],
           Visible_line 2 [''a.pdf'', ''c.pdf''], Missing_line [''b.png''],
           Extra_line [''c.pdf''], Dom_samples [pill ''a.pdf'', pill ''c.pdf'']])"
proof -
  have scenario:
    "attachmentVerification (steady_sampler [pill ''a.pdf'', pill ''c.pdf'']) t0
         [file_at ''a.pdf'', file_at ''b.png'']
       = (Inl (AttachmentVerificationFailed 2 2 [''b.png''] [''a.pdf'', ''c.pdf'']),
          [Failed_banner, Expected_line 2 [''a.pdf'', ''b.png''],
           Visible_line 2 [''a.pdf'', ''c.pdf''], Missing_line [''b.png''],
           Extra_line [''c.pdf''], Dom_samples [pill ''a.pdf'', pill ''c.pdf'']])"
    by (simp add: attachmentVerification_def steady_sampler_result scenario_C_check)
  show ?thesis
    using check_fails_iff [of attachments vis] check_fails_sets [of attachments vis]
      check_failure_report [of attachments vis] scenario
    by blast
qed

theorem attachment_verification_fails_iff_witness:
  "distinct (expectedFilenames (compareAttachments [file_at ''a.pdf'', file_at ''b.png'']
        [pill ''a.pdf'', pill ''c.pdf'']))
   \<and> set (expectedFilenames (compareAttachments [file_at ''a.pdf'', file_at ''b.png'']
        [pill ''a.pdf'', pill ''c.pdf'']))
      \<noteq> set (visibleFilenames (compareAttachments [file_at ''a.pdf'', file_at ''b.png'']
        [pill ''a.pdf'', pill ''c.pdf'']))
   \<and> isl (fst (checkAttachmentsVisible [file_at ''a.pdf'', file_at ''b.png'']
        [pill ''a.pdf'', pill ''c.pdf'']))"
proof -
  have d: "distinct (expectedFilenames (compareAttachments [file_at ''a.pdf'', file_at ''b.png'']
        [pill ''a.pdf'', pill ''c.pdf'']))"
    by code_simp
  have n: "set (expectedFilenames (compareAttachments [file_at ''a.pdf'', file_at ''b.png'']
        [pill ''a.pdf'', pill ''c.pdf'']))
      \<noteq> set (visibleFilenames (compareAttachments [file_at ''a.pdf'', file_at ''b.png'']
        [pill ''a.pdf'', pill ''c.pdf'']))"
    by code_simp
  show ?thesis
    using attachment_verification_fails_iff
      [of "[file_at ''a.pdf'', file_at ''b.png'']" "[pill ''a.pdf'', pill ''c.pdf'']"] d n
    by blast
qed


section \<open>Properties of the sampling loop\<close>

lemma verify_loop_Continue:
  "now s < d \<Longrightarrow> verify_poll sample s = Continue s1 \<Longrightarrow>
     verify_loop sample p d s = verify_loop sample p d (s1\<lparr>now := delay p (now s1)\<rparr>)"
  by (simp add: verify_loop.simps[of sample p d s])

lemma verify_loop_nothing_visible:
  assumes "\<forall>k\<ge>polls s. observed_key (sample k) = None"
  shows "fst (verify_loop sample p d s) = []"
  using assms
proof (induction sample p d s rule: verify_loop.induct)
  case (1 sample p d s)
  show ?case
  proof (cases "now s < d")
    case False
    then show ?thesis by (simp add: verify_loop.simps[of sample p d s])
  next
    case True
    from "1.prems" have k: "observed_key (sample (polls s)) = None" by simp
    obtain lat r where sm: "sample (polls s) = (lat, r)" by (cases "sample (polls s)")
    define s1 where "s1 = s\<lparr>now := now s + lat, polls := Suc (polls s)\<rparr>"
    from k sm have c: "verify_poll sample s = Continue s1"
      by (cases r) (auto simp: verify_poll_def observed_key_def Let_def s1_def split: if_splits)
    have p: "polls s1 = Suc (polls s)" by (simp add: s1_def)
    have "\<forall>k\<ge>polls (s1\<lparr>now := delay p (now s1)\<rparr>). observed_key (sample k) = None"
      using "1.prems" p by simp
    from "1.IH" [OF True c this] True c show ?thesis
      by (simp add: verify_loop.simps[of sample p d s])
  qed
qed

lemma staged_sampler_three:
  assumes "second \<noteq> []" "first = [] \<or> snapshotKey first \<noteq> snapshotKey second"
  shows "fst (verifyAttachmentsVisible (staged_sampler first 3 second rest) (Some 10000) None t0) = second"
    and "polls (snd (verifyAttachmentsVisible (staged_sampler first 3 second rest) (Some 10000) None t0)) = 4"
  using assms
  by (auto simp: verifyAttachmentsVisible_def verify_loop.simps verify_poll_def delay_def Let_def
        staged_sampler_def)

lemma scenario_B_check:
  "checkAttachmentsVisible [file_at ''a.pdf'', file_at ''b.png''] [pill ''a.pdf'', pill ''b.png'']
     = (Inr (), [Verified_line 2 2])"
  by code_simp

lemma scenario_B_keys: "snapshotKey [pill ''a.pdf''] \<noteq> snapshotKey [pill ''a.pdf'', pill ''b.png'']"
  by (simp add: snapshotKey_def)

text \<open>
  C7, as the spec states it: a sampler that first returns \<open>a.pdf\<close> and then returns
  \<open>a.pdf\<close>, \<open>b.png\<close> twice in a row makes the pipeline succeed. On the code two
  sightings are not enough: after them \<open>stableIterations\<close> is 1 and the loop goes on. When
  the composer shows nothing from the fourth poll on, the sampling runs into its
  timeout, returns the empty list, and the stage fails with both files missing.
\<close>

theorem two_sightings_not_trusted:
  "fst (attachmentVerification
          (staged_sampler [pill ''a.pdf''] 2 [pill ''a.pdf'', pill ''b.png''] (steady_sampler [])) 0
          [file_at ''a.pdf'', file_at ''b.png''])
     = Inl (AttachmentVerificationFailed 2 0 [''a.pdf'', ''b.png''] [])"
proof -
  let ?sample = "staged_sampler [pill ''a.pdf''] 2 [pill ''a.pdf'', pill ''b.png''] (steady_sampler [])"
  let ?ka = "snapshotKey [pill ''a.pdf'']"
  let ?kab = "snapshotKey [pill ''a.pdf'', pill ''b.png'']"
  let ?s0 = "\<lparr>now = 0, polls = 0, lastSnapshotKey = None, stableIterations = 0\<rparr>"
  let ?s1 = "\<lparr>now = 200, polls = 1, lastSnapshotKey = Some ?ka, stableIterations = 0\<rparr>"
  let ?s2 = "\<lparr>now = 400, polls = 2, lastSnapshotKey = Some ?kab, stableIterations = 0\<rparr>"
  let ?s3 = "\<lparr>now = 600, polls = 3, lastSnapshotKey = Some ?kab, stableIterations = 1\<rparr>"
  have "verify_loop ?sample 200 10000 ?s0 = verify_loop ?sample 200 10000 ?s1"
    by (subst verify_loop_Continue
          [where ?s1.0 = "\<lparr>now = 0, polls = 1, lastSnapshotKey = Some ?ka, stableIterations = 0\<rparr>"])
       (simp_all add: verify_poll_def staged_sampler_def delay_def pill_def)
  also have "\<dots> = verify_loop ?sample 200 10000 ?s2"
    by (subst verify_loop_Continue
          [where ?s1.0 = "\<lparr>now = 200, polls = 2, lastSnapshotKey = Some ?kab, stableIterations = 0\<rparr>"])
       (use scenario_B_keys in \<open>simp_all add: verify_poll_def staged_sampler_def delay_def Let_def\<close>)
  also have "\<dots> = verify_loop ?sample 200 10000 ?s3"
    by (subst verify_loop_Continue
          [where ?s1.0 = "\<lparr>now = 400, polls = 3, lastSnapshotKey = Some ?kab, stableIterations = 1\<rparr>"])
       (simp_all add: verify_poll_def staged_sampler_def delay_def Let_def pill_def)
  finally have "fst (verifyAttachmentsVisible ?sample (Some 10000) None 0)
                  = fst (verify_loop ?sample 200 10000 ?s3)"
    by (simp add: verifyAttachmentsVisible_def)
  also have "\<dots> = []"
    by (rule verify_loop_nothing_visible)
       (simp add: staged_sampler_def steady_sampler_def observed_key_def)
  finally have v: "fst (verifyAttachmentsVisible ?sample (Some 10000) None 0) = []" .
  have "fst (checkAttachmentsVisible [file_at ''a.pdf'', file_at ''b.png''] [])
          = Inl (AttachmentVerificationFailed 2 0 [''a.pdf'', ''b.png''] [])"
    by code_simp
  with v show ?thesis by (simp add: attachmentVerification_def)
qed

text \<open>
  C7, amended: \<open>verifyAttachmentsVisible\<close> trusts a sampled attachment set once the
  same non-empty snapshot has been seen on three polls in a row (the first sighting and
  two repeats, \<open>stableIterations \<ge> 2\<close>): a sampler that shows something else (or nothing)
  first and then the same non-empty list three times gets that list back on the fourth
  poll. Consequently, with expected \<open>a.pdf\<close>, \<open>b.png\<close>, a sampler that first returns
  \<open>a.pdf\<close> and then \<open>a.pdf\<close>, \<open>b.png\<close> three times in a row makes the stage succeed
  and report 2/2, whatever it returns afterwards.
\<close>

theorem three_sightings_trusted:
  assumes "second \<noteq> []" and "first = [] \<or> snapshotKey first \<noteq> snapshotKey second"
  shows "fst (verifyAttachmentsVisible (staged_sampler first 3 second rest) (Some 10000) None t0)
           = second
         \<and> polls (snd (verifyAttachmentsVisible (staged_sampler first 3 second rest)
                          (Some 10000) None t0)) = 4
         \<and> attachmentVerification
              (staged_sampler [pill ''a.pdf''] 3 [pill ''a.pdf'', pill ''b.png''] rest) t0
              [file_at ''a.pdf'', file_at ''b.png'']
            = (Inr (), [Verified_line 2 2])"
proof -
  have "fst (verifyAttachmentsVisible
               (staged_sampler [pill ''a.pdf''] 3 [pill ''a.pdf'', pill ''b.png''] rest)
               (Some 10000) None t0) = [pill ''a.pdf'', pill ''b.png'']"
    by (rule staged_sampler_three(1)) (simp_all add: scenario_B_keys)
  then have "attachmentVerification
              (staged_sampler [pill ''a.pdf''] 3 [pill ''a.pdf'', pill ''b.png''] rest) t0
              [file_at ''a.pdf'', file_at ''b.png'']
            = (Inr (), [Verified_line 2 2])"
    by (simp add: attachmentVerification_def scenario_B_check)
  with staged_sampler_three [OF assms, of rest t0] show ?thesis by simp
qed

theorem three_sightings_trusted_witness:
  "[pill ''a.pdf'', pill ''b.png''] \<noteq> []
   \<and> snapshotKey [pill ''a.pdf''] \<noteq> snapshotKey [pill ''a.pdf'', pill ''b.png'']
   \<and> fst (verifyAttachmentsVisible
             (staged_sampler [pill ''a.pdf''] 3 [pill ''a.pdf'', pill ''b.png''] (steady_sampler []))
             (Some 10000) None 0) = [pill ''a.pdf'', pill ''b.png'']
   \<and> polls (snd (verifyAttachmentsVisible
             (staged_sampler [pill ''a.pdf''] 3 [pill ''a.pdf'', pill ''b.png''] (steady_sampler []))
             (Some 10000) None 0)) = 4"
  using three_sightings_trusted
    [of "[pill ''a.pdf'', pill ''b.png'']" "[pill ''a.pdf'']" "steady_sampler []" 0]
    scenario_B_keys
  by simp







section \<open>Session recovery (sessionRecovery.ts)\<close>















section \<open>Properties of session recovery\<close>










section \<open>The browser lock (lock.ts)\<close>

text \<open>
  A JavaScript number as far as the lock looks at it: an integer, or a number that is
  not an integer (a fraction, \<open>NaN\<close>, an infinity). The code only asks
  \<open>Number.isInteger\<close>, compares with 0 and compares with \<open>process.pid\<close>, which is an
  integer, so the non-integers need not be told apart.
\<close>

datatype jsnum = JInt int | JNonInt

record BrowserLockPayload =
  pid :: jsnum
  createdAt :: jsnum

text \<open>The lock path: no file, a file that cannot be read or does not parse to an
  object with numeric \<open>pid\<close> and \<open>createdAt\<close>, or a file holding a payload.\<close>

datatype lock_file = Absent | Unreadable | Record BrowserLockPayload

datatype errcode = EEXIST | EACCES | EPERM | OtherCode string

datatype lock_log = Acquired | RemovedStale jsnum | Waiting jsnum | Released

datatype lock_error = MkdirFailed errcode | WriteFailed errcode | LockTimeout

definition readExistingLock :: "lock_file \<Rightarrow> BrowserLockPayload option" where
  "readExistingLock f = (case f of Record parsed \<Rightarrow> Some parsed | _ \<Rightarrow> None)"

text \<open>\<open>probe n\<close> says whether \<open>process.kill(n, 0)\<close> returns without throwing.\<close>

definition isProcessAlive :: "(int \<Rightarrow> bool) \<Rightarrow> jsnum \<Rightarrow> bool" where
  "isProcessAlive probe p =
     (case p of
        JNonInt \<Rightarrow> False
      | JInt n \<Rightarrow> if n \<le> 0 then False else probe n)"

text \<open>\<open>fs.writeFile(lockPath, payloadJson, { flag: "wx" })\<close>: creates the file only
  when there is none; \<open>fault\<close> is an error of the file system itself.\<close>

definition writeFile_wx :: "errcode option \<Rightarrow> BrowserLockPayload \<Rightarrow> lock_file \<Rightarrow> errcode + lock_file" where
  "writeFile_wx fault payload f =
     (case fault of
        Some code \<Rightarrow> Inl code
      | None \<Rightarrow> (case f of Absent \<Rightarrow> Inr (Record payload) | _ \<Rightarrow> Inl EEXIST))"

text \<open>The file system and the processes around one lone contender: which processes
  answer the probe, and which calls fail, by the number of the loop iteration.\<close>

record lock_env =
  probe :: "int \<Rightarrow> bool"
  mkdir_fault :: "errcode option"
  write_fault :: "nat \<Rightarrow> errcode option"
  rm_fault :: "nat \<Rightarrow> bool"

record lock_state =
  lockFile :: lock_file
  clock :: nat
  retries :: nat
  hasLoggedWaiting :: bool
  log :: "lock_log list"

text \<open>The \<open>while (true)\<close> loop, with fuel: \<open>None\<close> when the fuel runs out. \<open>me\<close>
  is \<open>process.pid\<close>, \<open>logger\<close> says whether a logger was given.\<close>

fun acquire_loop ::
  "lock_env \<Rightarrow> int \<Rightarrow> bool \<Rightarrow> nat \<Rightarrow> nat \<Rightarrow> BrowserLockPayload \<Rightarrow> nat \<Rightarrow> lock_state
     \<Rightarrow> (lock_error + lock_state) option" where
  "acquire_loop env me logger timeoutMs deadline payload 0 s = None"
| "acquire_loop env me logger timeoutMs deadline payload (Suc fuel) s =
     (case writeFile_wx (write_fault env (retries s)) payload (lockFile s) of
        Inr f \<Rightarrow> Some (Inr (s\<lparr>lockFile := f, log := log s @ (if logger then [Acquired] else [])\<rparr>))
      | Inl code \<Rightarrow>
          if code \<noteq> EEXIST \<and> code \<noteq> EACCES \<and> code \<noteq> EPERM then Some (Inl (WriteFailed code))
          else
            (case readExistingLock (lockFile s) of
               None \<Rightarrow>
                 acquire_loop env me logger timeoutMs deadline payload fuel
                   (s\<lparr>clock := delay 750 (clock s), retries := Suc (retries s)\<rparr>)
             | Some existing \<Rightarrow>
                 if \<not> isProcessAlive (probe env) (pid existing) then
                   (let s1 = (if rm_fault env (retries s) then s
                              else s\<lparr>lockFile := Absent,
                                     log := log s @ (if logger then [RemovedStale (pid existing)] else [])\<rparr>)
                    in acquire_loop env me logger timeoutMs deadline payload fuel
                         (s1\<lparr>clock := delay 750 (clock s1), retries := Suc (retries s1)\<rparr>))
                 else
                   (let s1 = (if \<not> hasLoggedWaiting s \<and> logger
                              then s\<lparr>hasLoggedWaiting := True, log := log s @ [Waiting (pid existing)]\<rparr>
                              else s)
                    in if timeoutMs > 0 \<and> clock s1 > deadline then Some (Inl LockTimeout)
                       else acquire_loop env me logger timeoutMs deadline payload fuel
                              (s1\<lparr>clock := delay 750 (clock s1), retries := Suc (retries s1)\<rparr>))))"

text \<open>\<open>acquireBrowserLock\<close> called at time \<open>t0\<close> on the lock path holding \<open>f\<close>;
  \<open>options.timeoutMs ?? 30 * 60_000\<close>.\<close>

definition acquireBrowserLock ::
  "lock_env \<Rightarrow> int \<Rightarrow> bool \<Rightarrow> nat option \<Rightarrow> nat \<Rightarrow> nat \<Rightarrow> lock_file
     \<Rightarrow> (lock_error + lock_state) option" where
  "acquireBrowserLock env me logger timeout fuel t0 f =
     (let timeoutMs = (case timeout of Some t \<Rightarrow> t | None \<Rightarrow> 30 * 60000);
          deadline = t0 + timeoutMs
      in case mkdir_fault env of
           Some code \<Rightarrow> Some (Inl (MkdirFailed code))
         | None \<Rightarrow>
             acquire_loop env me logger timeoutMs deadline
               \<lparr>pid = JInt me, createdAt = JInt (int t0)\<rparr> fuel
               \<lparr>lockFile = f, clock = t0, retries = 0, hasLoggedWaiting = False, log = []\<rparr>)"


text \<open>A quiet environment: only the processes in \<open>live\<close> answer the probe, and no
  file-system call fails, except \<open>fs.rm\<close> in the first \<open>k\<close> loop iterations.\<close>

definition quiet_env :: "int list \<Rightarrow> nat \<Rightarrow> lock_env" where
  "quiet_env live k =
     \<lparr>probe = (\<lambda>n. n \<in> set live), mkdir_fault = None, write_fault = (\<lambda>i. None),
      rm_fault = (\<lambda>i. i < k)\<rparr>"


section \<open>Properties of the browser lock\<close>

lemma acquire_loop_stale:
  assumes "\<not> isProcessAlive (probe env) (pid existing)"
    and "\<forall>i. write_fault env i = None"
    and "lockFile s = Record existing"
    and "\<forall>i. retries s \<le> i \<and> i < retries s + k \<longrightarrow> rm_fault env i"
    and "\<not> rm_fault env (retries s + k)"
  shows "acquire_loop env me logger timeoutMs deadline payload (k + 2) s
         = Some (Inr (s\<lparr>lockFile := Record payload, clock := clock s + 750 * (k + 1),
                        retries := retries s + k + 1,
                        log := log s @ (if logger then [RemovedStale (pid existing), Acquired] else [])\<rparr>))"
  using assms(3-5)
proof (induction k arbitrary: s)
  case 0
  then show ?case using assms(1,2)
    by (simp add: writeFile_wx_def readExistingLock_def delay_def numeral_2_eq_2)
next
  case (Suc k)
  let ?s' = "s\<lparr>clock := delay 750 (clock s), retries := Suc (retries s)\<rparr>"
  from Suc.prems have f: "rm_fault env (retries s)" by simp
  have step: "acquire_loop env me logger timeoutMs deadline payload (Suc k + 2) s
        = acquire_loop env me logger timeoutMs deadline payload (k + 2) ?s'"
    using Suc.prems(1) f assms(1,2)
    by (simp add: writeFile_wx_def readExistingLock_def)
  have "acquire_loop env me logger timeoutMs deadline payload (k + 2) ?s'
         = Some (Inr (?s'\<lparr>lockFile := Record payload, clock := clock ?s' + 750 * (k + 1),
                        retries := retries ?s' + k + 1,
                        log := log ?s' @ (if logger then [RemovedStale (pid existing), Acquired] else [])\<rparr>))"
    using Suc.prems by (intro Suc.IH) auto
  with step show ?case by (simp add: delay_def)
qed

text \<open>
  C4, as the spec states it: on a stale record \<open>acquire\<close> deletes it and retries
  immediately, and only a failed deletion makes it wait. On the code the deletion is
  followed by the same \<open>delay(retryDelayMs)\<close> as every other branch: a lone contender
  called at time 0 on a record of the dead process 4242 holds the lock at time 750, not
  at time 0.
\<close>

theorem stale_lock_retry_delayed:
  "acquireBrowserLock (quiet_env [100] 0) 100 True None 2 0 (Record \<lparr>pid = JInt 4242, createdAt = JInt 1\<rparr>)
   = Some (Inr \<lparr>lockFile = Record \<lparr>pid = JInt 100, createdAt = JInt 0\<rparr>, clock = 750,
          retries = 1, hasLoggedWaiting = False,
          log = [RemovedStale (JInt 4242), Acquired]\<rparr>)"
  by (simp add: acquireBrowserLock_def quiet_env_def numeral_2_eq_2 writeFile_wx_def readExistingLock_def isProcessAlive_def delay_def)


text \<open>
  C4, amended: for every existing lock file whose payload is structurally valid but
  records a dead process id (not an integer, at most 0, or the signal-0 probe fails),
  \<open>acquire\<close>, alone on the path and with no write fault, deletes the stale record,
  waits the fixed retry delay of 750 ms and then acquires, whatever the configured
  timeout. When the deletion fails it waits the same 750 ms and retries: after \<open>k\<close>
  failed deletions the lock is held at \<open>750 * (k + 1)\<close> ms, and no timeout is ever
  reported on this path.
\<close>

theorem stale_lock_reclaimed:
  assumes "\<not> isProcessAlive (probe env) (pid existing)"
    and "mkdir_fault env = None" and "\<forall>i. write_fault env i = None"
    and "\<forall>i<k. rm_fault env i" and "\<not> rm_fault env k"
  shows "acquireBrowserLock env me logger timeout (k + 2) t0 (Record existing)
         = Some (Inr \<lparr>lockFile = Record \<lparr>pid = JInt me, createdAt = JInt (int t0)\<rparr>,
                      clock = t0 + 750 * (k + 1), retries = k + 1, hasLoggedWaiting = False,
                      log = (if logger then [RemovedStale (pid existing), Acquired] else [])\<rparr>)
         \<and> (\<not> isProcessAlive pr p) = (case p of JNonInt \<Rightarrow> True | JInt n \<Rightarrow> n \<le> 0 \<or> \<not> pr n)"
proof -
  let ?s0 = "\<lparr>lockFile = Record existing, clock = t0, retries = 0, hasLoggedWaiting = False, log = []\<rparr>"
  have "acquire_loop env me logger timeoutMs deadline payload (k + 2) ?s0
         = Some (Inr (?s0\<lparr>lockFile := Record payload, clock := clock ?s0 + 750 * (k + 1),
                        retries := retries ?s0 + k + 1,
                        log := log ?s0 @ (if logger then [RemovedStale (pid existing), Acquired] else [])\<rparr>))"
    for timeoutMs deadline payload
    by (rule acquire_loop_stale [OF assms(1) assms(3)]) (use assms(4,5) in simp_all)
  then have "acquireBrowserLock env me logger timeout (k + 2) t0 (Record existing)
         = Some (Inr \<lparr>lockFile = Record \<lparr>pid = JInt me, createdAt = JInt (int t0)\<rparr>,
                      clock = t0 + 750 * (k + 1), retries = k + 1, hasLoggedWaiting = False,
                      log = (if logger then [RemovedStale (pid existing), Acquired] else [])\<rparr>)"
    unfolding acquireBrowserLock_def Let_def using assms(2) by simp
  moreover
  have "(\<not> isProcessAlive pr p) = (case p of JNonInt \<Rightarrow> True | JInt n \<Rightarrow> n \<le> 0 \<or> \<not> pr n)"
    by (auto simp: isProcessAlive_def split: jsnum.splits)
  ultimately show ?thesis by (intro conjI)
qed


theorem stale_lock_reclaimed_witness:
  "\<not> isProcessAlive (probe (quiet_env [100] 1)) (pid \<lparr>pid = JInt 4242, createdAt = JInt 1\<rparr>)
   \<and> rm_fault (quiet_env [100] 1) 0 \<and> \<not> rm_fault (quiet_env [100] 1) 1
   \<and> acquireBrowserLock (quiet_env [100] 1) 100 True (Some 1) 3 0
         (Record \<lparr>pid = JInt 4242, createdAt = JInt 1\<rparr>)
       = Some (Inr \<lparr>lockFile = Record \<lparr>pid = JInt 100, createdAt = JInt 0\<rparr>,
                    clock = 1500, retries = 2, hasLoggedWaiting = False,
                    log = [RemovedStale (JInt 4242), Acquired]\<rparr>)"
proof -
  have h: "\<not> isProcessAlive (probe (quiet_env [100] 1)) (pid \<lparr>pid = JInt 4242, createdAt = JInt 1\<rparr>)"
    by (simp add: isProcessAlive_def quiet_env_def)
  have "acquireBrowserLock (quiet_env [100] 1) 100 True (Some 1) (1 + 2) 0
         (Record \<lparr>pid = JInt 4242, createdAt = JInt 1\<rparr>)
       = Some (Inr \<lparr>lockFile = Record \<lparr>pid = JInt 100, createdAt = JInt (int 0)\<rparr>,
                    clock = 0 + 750 * (1 + 1), retries = 1 + 1, hasLoggedWaiting = False,
                    log = (if True then [RemovedStale (pid \<lparr>pid = JInt 4242, createdAt = JInt 1\<rparr>), Acquired]
                           else [])\<rparr>)"
    by (rule stale_lock_reclaimed [OF h, THEN conjunct1]) (simp_all add: quiet_env_def)
  then have "acquireBrowserLock (quiet_env [100] 1) 100 True (Some 1) 3 0
         (Record \<lparr>pid = JInt 4242, createdAt = JInt 1\<rparr>)
       = Some (Inr \<lparr>lockFile = Record \<lparr>pid = JInt 100, createdAt = JInt 0\<rparr>,
                    clock = 1500, retries = 2, hasLoggedWaiting = False,
                    log = [RemovedStale (JInt 4242), Acquired]\<rparr>)"
    by (simp add: numeral_3_eq_3 numeral_2_eq_2 del: acquire_loop.simps)
  moreover have "rm_fault (quiet_env [100] 1) 0 \<and> \<not> rm_fault (quiet_env [100] 1) 1"
    by (simp add: quiet_env_def)
  ultimately show ?thesis using h by (intro conjI) simp_all
qed




section \<open>Uploading one attachment (attachments.ts)\<close>






















section \<open>Properties of the upload\<close>























section \<open>Waiting for the composer to settle (attachments.ts)\<close>

datatype send_state = Missing | Disabled | Ready

text \<open>What the probe expression returns: the state of the send button, whether an
  upload marker is shown, and \<open>window.location.href\<close>.\<close>

record probe =
  state :: send_state
  uploading :: bool
  href :: string






























section \<open>Properties of the wait\<close>














section \<open>Two contenders for the browser lock\<close>

text \<open>
  \<open>acquireBrowserLock\<close> and its release function once more, now cut at their
  \<open>await\<close>s, so that the calls of two processes on the same lock path can interleave.
  Each step is one call on the file system (or one \<open>delay\<close>) together with the
  synchronous code up to the next \<open>await\<close>. A contender is at one of these points:
  about to create the file (line 85); about to read the existing file (line 96); having
  found the recorded owner dead, about to remove the file (line 106); in one of the
  three \<open>delay(retryDelayMs)\<close>; holding the lock, its release function not yet called;
  in the release function, having read its own pid, about to remove the file (line 148);
  done with the release; or failed with the timeout error. The file system is free of
  faults here, and \<open>alive\<close> says which processes answer the signal-0 probe.
\<close>

datatype lock_pc =
  Creating | Reading | Removing | Sleeping | Holding | Releasing | Done | Timed_out

text \<open>\<open>since\<close> is \<open>Date.now()\<close> at the call, \<open>waited\<close> the time spent in the
  contender's own delays since, a lower bound of the time elapsed.\<close>

record contender =
  pc :: lock_pc
  since :: nat
  waited :: nat

definition own_payload :: "int \<Rightarrow> contender \<Rightarrow> BrowserLockPayload" where
  "own_payload me c = \<lparr>pid = JInt me, createdAt = JInt (int (since c))\<rparr>"

definition contender_step ::
  "(int \<Rightarrow> bool) \<Rightarrow> nat \<Rightarrow> int \<Rightarrow> lock_file \<times> contender \<Rightarrow> lock_file \<times> contender" where
  "contender_step alive timeoutMs me fc =
     (case fc of (f, c) \<Rightarrow>
        (case pc c of
           Creating \<Rightarrow>
             (case writeFile_wx None (own_payload me c) f of
                Inr f' \<Rightarrow> (f', c\<lparr>pc := Holding\<rparr>)
              | Inl code \<Rightarrow> (f, c\<lparr>pc := Reading\<rparr>))
         | Reading \<Rightarrow>
             (case readExistingLock f of
                None \<Rightarrow> (f, c\<lparr>pc := Sleeping\<rparr>)
              | Some existing \<Rightarrow>
                  if \<not> isProcessAlive alive (pid existing) then (f, c\<lparr>pc := Removing\<rparr>)
                  else if timeoutMs > 0 \<and> since c + waited c > since c + timeoutMs
                       then (f, c\<lparr>pc := Timed_out\<rparr>)
                       else (f, c\<lparr>pc := Sleeping\<rparr>))
         | Removing \<Rightarrow> (Absent, c\<lparr>pc := Sleeping\<rparr>)
         | Sleeping \<Rightarrow> (f, c\<lparr>pc := Creating, waited := waited c + 750\<rparr>)
         | Holding \<Rightarrow>
             (case readExistingLock f of
                None \<Rightarrow> (f, c\<lparr>pc := Done\<rparr>)
              | Some existing \<Rightarrow>
                  if pid existing = JInt me then (f, c\<lparr>pc := Releasing\<rparr>)
                  else (f, c\<lparr>pc := Done\<rparr>))
         | Releasing \<Rightarrow> (Absent, c\<lparr>pc := Done\<rparr>)
         | Done \<Rightarrow> (f, c)
         | Timed_out \<Rightarrow> (f, c)))"

text \<open>Two contenders, with process ids \<open>pid1\<close> and \<open>pid2\<close>, on one lock path. A
  schedule says whose step comes next.\<close>

datatype turn = One | Two

record lock_race =
  lock_path :: lock_file
  contender1 :: contender
  contender2 :: contender

definition race_step ::
  "(int \<Rightarrow> bool) \<Rightarrow> nat \<Rightarrow> int \<Rightarrow> int \<Rightarrow> lock_race \<Rightarrow> turn \<Rightarrow> lock_race" where
  "race_step alive timeoutMs pid1 pid2 w t =
     (case t of
        One \<Rightarrow>
          (case contender_step alive timeoutMs pid1 (lock_path w, contender1 w) of
             (f, c) \<Rightarrow> w\<lparr>lock_path := f, contender1 := c\<rparr>)
      | Two \<Rightarrow>
          (case contender_step alive timeoutMs pid2 (lock_path w, contender2 w) of
             (f, c) \<Rightarrow> w\<lparr>lock_path := f, contender2 := c\<rparr>))"

definition race ::
  "(int \<Rightarrow> bool) \<Rightarrow> nat \<Rightarrow> int \<Rightarrow> int \<Rightarrow> lock_race \<Rightarrow> turn list \<Rightarrow> lock_race" where
  "race alive timeoutMs pid1 pid2 w schedule = foldl (race_step alive timeoutMs pid1 pid2) w schedule"

text \<open>Both contenders call \<open>acquireBrowserLock\<close> at time 0 on a path holding \<open>f\<close>.\<close>

definition race_start :: "lock_file \<Rightarrow> lock_race" where
  "race_start f =
     \<lparr>lock_path = f,
      contender1 = \<lparr>pc = Creating, since = 0, waited = 0\<rparr>,
      contender2 = \<lparr>pc = Creating, since = 0, waited = 0\<rparr>\<rparr>"

text \<open>Only the two contenders, processes 100 and 200, are alive.\<close>

definition only_contenders_alive :: "int \<Rightarrow> bool" where
  "only_contenders_alive n = (n = 100 \<or> n = 200)"


section \<open>Properties of the race for the lock\<close>

text \<open>A contender holds the lock from the moment its create succeeds until its
  release has removed the file.\<close>

definition holds :: "contender \<Rightarrow> bool" where
  "holds c = (pc c = Holding \<or> pc c = Releasing)"

text \<open>The invariant of a race that starts on a free path: the file, when there is
  one, is the record of the one contender that holds the lock, and nobody is about to
  remove a stale record.\<close>

definition exclusive :: "int \<Rightarrow> int \<Rightarrow> lock_race \<Rightarrow> bool" where
  "exclusive pid1 pid2 w =
     ((lock_path w = Absent
        \<or> lock_path w = Record (own_payload pid1 (contender1 w))
        \<or> lock_path w = Record (own_payload pid2 (contender2 w)))
      \<and> pc (contender1 w) \<noteq> Removing \<and> pc (contender2 w) \<noteq> Removing
      \<and> (holds (contender1 w) = (lock_path w = Record (own_payload pid1 (contender1 w))))
      \<and> (holds (contender2 w) = (lock_path w = Record (own_payload pid2 (contender2 w)))))"

lemma exclusive_step:
  assumes "exclusive pid1 pid2 w" "pid1 \<noteq> pid2" "0 < pid1" "0 < pid2" "alive pid1" "alive pid2"
  shows "exclusive pid1 pid2 (race_step alive timeoutMs pid1 pid2 w t)"
proof (cases t)
  case One
  show ?thesis
  proof (cases "pc (contender1 w)")
    case Creating
    with assms One show ?thesis
      by (cases "lock_path w")
         (auto simp: exclusive_def race_step_def contender_step_def holds_def own_payload_def
            writeFile_wx_def)
  next
    case Reading
    with assms One show ?thesis
      by (cases "lock_path w")
         (auto simp: exclusive_def race_step_def contender_step_def holds_def own_payload_def
            readExistingLock_def isProcessAlive_def)
  qed (use assms One in \<open>auto simp: exclusive_def race_step_def contender_step_def holds_def
            own_payload_def readExistingLock_def\<close>)
next
  case Two
  show ?thesis
  proof (cases "pc (contender2 w)")
    case Creating
    with assms Two show ?thesis
      by (cases "lock_path w")
         (auto simp: exclusive_def race_step_def contender_step_def holds_def own_payload_def
            writeFile_wx_def)
  next
    case Reading
    with assms Two show ?thesis
      by (cases "lock_path w")
         (auto simp: exclusive_def race_step_def contender_step_def holds_def own_payload_def
            readExistingLock_def isProcessAlive_def)
  qed (use assms Two in \<open>auto simp: exclusive_def race_step_def contender_step_def holds_def
            own_payload_def readExistingLock_def\<close>)
qed

lemma exclusive_race:
  assumes "exclusive pid1 pid2 w" "pid1 \<noteq> pid2" "0 < pid1" "0 < pid2" "alive pid1" "alive pid2"
  shows "exclusive pid1 pid2 (race alive timeoutMs pid1 pid2 w schedule)"
  using assms(1)
proof (induction schedule arbitrary: w)
  case Nil
  then show ?case by (simp add: race_def)
next
  case (Cons t ts)
  from exclusive_step [OF Cons.prems assms(2-6)]
  have "exclusive pid1 pid2 (race_step alive timeoutMs pid1 pid2 w t)" .
  from Cons.IH [OF this] show ?case by (simp add: race_def)
qed

lemma free_path_mutual_exclusion:
  assumes "pid1 \<noteq> pid2" "0 < pid1" "0 < pid2" "alive pid1" "alive pid2"
  shows "\<not> (holds (contender1 (race alive timeoutMs pid1 pid2 (race_start Absent) schedule))
            \<and> holds (contender2 (race alive timeoutMs pid1 pid2 (race_start Absent) schedule)))"
proof -
  have "exclusive pid1 pid2 (race_start Absent)"
    by (simp add: exclusive_def race_start_def holds_def)
  from exclusive_race [OF this assms, of timeoutMs schedule] assms(1) show ?thesis
    by (auto simp: exclusive_def own_payload_def)
qed

text \<open>
  C1: of two contenders racing \<open>acquire\<close> on the same lock path, the second succeeds
  only after the winner releases, so that there is at most one live holder at any time.
  On a path that is free at the start this holds for every schedule
  (\<open>free_path_mutual_exclusion\<close>). It fails when the path holds the record of a dead
  process: both contenders fail to create the file, read the record and find its owner
  dead; the second removes the record, sleeps, creates its own record and returns; only
  then the first executes the \<open>fs.rm\<close> it had decided on, which deletes the record of
  the second, sleeps, creates its own record and returns as well. Both hold the lock,
  and neither has released it.
\<close>

theorem stale_lock_race:
  "race only_contenders_alive 1800000 100 200
     (race_start (Record \<lparr>pid = JInt 4242, createdAt = JInt 1\<rparr>))
     [One, One, Two, Two, Two, Two, Two, One, One, One]
   = \<lparr>lock_path = Record \<lparr>pid = JInt 100, createdAt = JInt 0\<rparr>,
      contender1 = \<lparr>pc = Holding, since = 0, waited = 750\<rparr>,
      contender2 = \<lparr>pc = Holding, since = 0, waited = 750\<rparr>\<rparr>"
  by (simp add: race_def race_step_def race_start_def contender_step_def writeFile_wx_def
        readExistingLock_def isProcessAlive_def only_contenders_alive_def own_payload_def)

end
